theory Spec2Isabelle
  imports
    Complex_Main
    "HOL-Library.AList"
    "HOL-Library.Log_Nat"
    "HOL-Library.Char_ord"
    "HOL-Library.List_Lexorder"
begin

section \<open>Python strings\<close>

text \<open>
  A Python \<open>str\<close> is modelled as a \<^typ>\<open>string\<close> whose characters are the code points
  U+0000 to U+00FF (Latin-1). On this range \<open>str.strip()\<close> removes the characters for
  which \<open>str.isspace()\<close> holds (9 to 13, 28 to 32, 133 and 160), and \<open>str.lower()\<close> maps
  every character to exactly one character: A to Z and the capital letters U+00C0 to
  U+00DE (without the multiplication sign U+00D7) move up by 32.
\<close>

definition isspace :: "char \<Rightarrow> bool" where
  "isspace c =
     (let n = (of_char c :: nat)
      in (9 \<le> n \<and> n \<le> 13) \<or> (28 \<le> n \<and> n \<le> 32) \<or> n = 133 \<or> n = 160)"

definition lstrip :: "string \<Rightarrow> string" where
  "lstrip s = dropWhile isspace s"

definition rstrip :: "string \<Rightarrow> string" where
  "rstrip s = rev (dropWhile isspace (rev s))"

definition strip :: "string \<Rightarrow> string" where
  "strip s = rstrip (lstrip s)"

definition lower_char :: "char \<Rightarrow> char" where
  "lower_char c =
     (let n = (of_char c :: nat)
      in if (65 \<le> n \<and> n \<le> 90) \<or> (192 \<le> n \<and> n \<le> 222 \<and> n \<noteq> 215)
         then char_of (n + 32) else c)"

definition lower :: "string \<Rightarrow> string" where
  "lower s = map lower_char s"

definition is_digit :: "char \<Rightarrow> bool" where
  "is_digit c = (let n = (of_char c :: nat) in 48 \<le> n \<and> n \<le> 57)"

definition digit_val :: "char \<Rightarrow> nat" where
  "digit_val c = of_char c - 48"

text \<open>The value of a string of decimal digits, as \<open>int()\<close> reads it.\<close>

definition digits_val :: "string \<Rightarrow> nat" where
  "digits_val ds = foldl (\<lambda>acc c. 10 * acc + digit_val c) 0 ds"

section \<open>Python floats\<close>

text \<open>
  A Python \<open>float\<close> is an IEEE 754 binary64 value. \<open>Finite q\<close> is the finite double of
  value \<open>q\<close>; the two zeros are one value, which no operation modelled here tells apart
  (\<open>0.0 == -0.0\<close>, and dividing by either raises). Every arithmetic result is the exact
  rational result rounded to the nearest double, ties to even, by \<open>rnd64\<close>.
\<close>

datatype pyfloat = Finite rat | PosInf | NegInf | NaN

definition pow2 :: "int \<Rightarrow> rat" where
  "pow2 e = (if 0 \<le> e then 2 ^ nat e else 1 / 2 ^ nat (- e))"

text \<open>
  \<open>ilog2 a\<close> is the exponent \<open>e\<close> with \<open>2^e \<le> a < 2^(e+1)\<close>, for \<open>a > 0\<close>: one less
  than the bit length of \<open>\<lfloor>a\<rfloor>\<close> from 1 on, and below 1 the negated bit length of
  \<open>\<lceil>1/a\<rceil> - 1\<close>.
\<close>

definition ilog2 :: "rat \<Rightarrow> int" where
  "ilog2 a = (if 1 \<le> a then bitlen \<lfloor>a\<rfloor> - 1 else - bitlen (\<lceil>1 / a\<rceil> - 1))"

definition round_half_even :: "rat \<Rightarrow> int" where
  "round_half_even x =
     (let f = \<lfloor>x\<rfloor>; d = x - of_int f
      in if d < 1 / 2 then f
         else if 1 / 2 < d then f + 1
         else if even f then f else f + 1)"

text \<open>
  Rounding to binary64: 53 significant bits, the least exponent of a normal number is
  -1022 (below it the spacing stays \<open>2^-1074\<close>), and a result that rounds to
  \<open>2^1024\<close> or more is an infinity.
\<close>

definition rnd64 :: "rat \<Rightarrow> pyfloat" where
  "rnd64 x =
     (if x = 0 then Finite 0
      else
        let a = \<bar>x\<bar>;
            e = max (ilog2 a) (- 1022);
            ulp = pow2 (e - 52);
            r = of_int (round_half_even (a / ulp)) * ulp
        in if pow2 1024 \<le> r then (if 0 < x then PosInf else NegInf)
           else Finite (if 0 < x then r else - r))"

fun fneg :: "pyfloat \<Rightarrow> pyfloat" where
  "fneg (Finite x) = Finite (- x)"
| "fneg PosInf = NegInf"
| "fneg NegInf = PosInf"
| "fneg NaN = NaN"

fun fadd :: "pyfloat \<Rightarrow> pyfloat \<Rightarrow> pyfloat" where
  "fadd (Finite x) (Finite y) = rnd64 (x + y)"
| "fadd NaN _ = NaN"
| "fadd _ NaN = NaN"
| "fadd PosInf NegInf = NaN"
| "fadd NegInf PosInf = NaN"
| "fadd PosInf _ = PosInf"
| "fadd NegInf _ = NegInf"
| "fadd _ PosInf = PosInf"
| "fadd _ NegInf = NegInf"

definition fsub :: "pyfloat \<Rightarrow> pyfloat \<Rightarrow> pyfloat" where
  "fsub a b = fadd a (fneg b)"

text \<open>Comparisons: every comparison with a NaN is false.\<close>

fun flt :: "pyfloat \<Rightarrow> pyfloat \<Rightarrow> bool" where
  "flt (Finite x) (Finite y) = (x < y)"
| "flt NaN _ = False"
| "flt _ NaN = False"
| "flt _ NegInf = False"
| "flt PosInf _ = False"
| "flt NegInf _ = True"
| "flt _ PosInf = True"

fun fle :: "pyfloat \<Rightarrow> pyfloat \<Rightarrow> bool" where
  "fle (Finite x) (Finite y) = (x \<le> y)"
| "fle NaN _ = False"
| "fle _ NaN = False"
| "fle NegInf _ = True"
| "fle _ PosInf = True"
| "fle _ NegInf = False"
| "fle PosInf _ = False"

fun fmul :: "pyfloat \<Rightarrow> pyfloat \<Rightarrow> pyfloat" where
  "fmul (Finite x) (Finite y) = rnd64 (x * y)"
| "fmul NaN _ = NaN"
| "fmul _ NaN = NaN"
| "fmul PosInf PosInf = PosInf"
| "fmul PosInf NegInf = NegInf"
| "fmul NegInf PosInf = NegInf"
| "fmul NegInf NegInf = PosInf"
| "fmul PosInf (Finite y) = (if y = 0 then NaN else if 0 < y then PosInf else NegInf)"
| "fmul NegInf (Finite y) = (if y = 0 then NaN else if 0 < y then NegInf else PosInf)"
| "fmul (Finite x) PosInf = (if x = 0 then NaN else if 0 < x then PosInf else NegInf)"
| "fmul (Finite x) NegInf = (if x = 0 then NaN else if 0 < x then NegInf else PosInf)"

section \<open>Exceptions\<close>

text \<open>
  The exceptions the modelled code can raise. \<open>ValueError\<close>, \<open>TypeError\<close>,
  \<open>OverflowError\<close>, \<open>ZeroDivisionError\<close>, \<open>KeyError\<close> and \<open>OSError\<close> are the ones Python's
  own operations raise; a \<open>UnicodeEncodeError\<close> is a \<open>ValueError\<close>. The other four are
  the \<open>ValueError\<close>s the repository raises itself, told apart by their message: \<open>InvalidDateFormat\<close> ("Invalid date format:
  ...") and \<open>InvalidDateValue\<close> ("Invalid date: ...") are the specification's
  \<open>InvalidDate\<close>, \<open>InvalidAmount\<close> is "Invalid amount: ..." and \<open>InvalidLimit\<close> is
  "Invalid budget limit: ...".
\<close>

datatype error =
    ValueError | TypeError | OverflowError | ZeroDivisionError | KeyError | OSError
  | InvalidDateFormat | InvalidDateValue | InvalidAmount | InvalidLimit

definition is_InvalidDate :: "error \<Rightarrow> bool" where
  "is_InvalidDate e = (e = InvalidDateFormat \<or> e = InvalidDateValue)"

text \<open>Float division: Python raises on a zero divisor instead of returning an infinity.\<close>

fun fdiv :: "pyfloat \<Rightarrow> pyfloat \<Rightarrow> error + pyfloat" where
  "fdiv (Finite x) (Finite y) = (if y = 0 then Inl ZeroDivisionError else Inr (rnd64 (x / y)))"
| "fdiv NaN (Finite y) = (if y = 0 then Inl ZeroDivisionError else Inr NaN)"
| "fdiv PosInf (Finite y) =
     (if y = 0 then Inl ZeroDivisionError else Inr (if 0 < y then PosInf else NegInf))"
| "fdiv NegInf (Finite y) =
     (if y = 0 then Inl ZeroDivisionError else Inr (if 0 < y then NegInf else PosInf))"
| "fdiv (Finite x) PosInf = Inr (Finite 0)"
| "fdiv (Finite x) NegInf = Inr (Finite 0)"
| "fdiv PosInf PosInf = Inr NaN"
| "fdiv PosInf NegInf = Inr NaN"
| "fdiv NegInf PosInf = Inr NaN"
| "fdiv NegInf NegInf = Inr NaN"
| "fdiv NaN PosInf = Inr NaN"
| "fdiv NaN NegInf = Inr NaN"
| "fdiv a NaN = Inr NaN"

text \<open>
  \<open>round(x, 2)\<close> on a float: the exact value is rounded to two decimals, ties to the even
  digit, and the decimal result is converted back to the nearest double. Infinities and
  NaN round to themselves.
\<close>

fun round2 :: "pyfloat \<Rightarrow> pyfloat" where
  "round2 (Finite x) = rnd64 (of_int (round_half_even (x * 100)) / 100)"
| "round2 f = f"

section \<open>The builtin \<open>float()\<close>\<close>

text \<open>
  The values the repository passes as an amount or a limit: \<open>None\<close> (and with it every
  object \<open>float()\<close> rejects by type), an unbounded \<open>int\<close>, a \<open>float\<close>, or a \<open>str\<close> (what
  \<open>input()\<close> and the CSV reader deliver).
\<close>

datatype pyval = PyNone | PyInt int | PyFloat pyfloat | PyStr string

text \<open>
  \<open>float(s)\<close> on a string. A string with a character above 127 is first mapped to
  ASCII: characters below 127 stay, \<open>isspace\<close> characters become a blank, and at the first
  other character the string ends with a question mark. Then the C whitespace (9 to 13 and 32) is removed on both sides,
  underscores are admitted between two digits only and removed, and the rest must be, as
  a whole, an optional sign followed by \<open>inf\<close>, \<open>infinity\<close>, \<open>nan\<close> (in any case) or by a
  decimal numeral with an optional exponent. The value is the exact decimal value
  rounded to the nearest double; too large a value is an infinity, not an error.
\<close>

definition c_isspace :: "char \<Rightarrow> bool" where
  "c_isspace c = (let n = (of_char c :: nat) in (9 \<le> n \<and> n \<le> 13) \<or> n = 32)"

definition ascii_lower_char :: "char \<Rightarrow> char" where
  "ascii_lower_char c =
     (let n = (of_char c :: nat) in if 65 \<le> n \<and> n \<le> 90 then char_of (n + 32) else c)"

fun to_ascii_chars :: "string \<Rightarrow> string" where
  "to_ascii_chars [] = []"
| "to_ascii_chars (c # cs) =
     (if (of_char c :: nat) < 127 then c # to_ascii_chars cs
      else if isspace c then CHR '' '' # to_ascii_chars cs
      else ''?'')"

definition to_ascii :: "string \<Rightarrow> string" where
  "to_ascii s = (if list_all (\<lambda>c. (of_char c :: nat) < 128) s then s else to_ascii_chars s)"

definition c_strip :: "string \<Rightarrow> string" where
  "c_strip s = rev (dropWhile c_isspace (rev (dropWhile c_isspace s)))"

fun strip_underscores :: "char \<Rightarrow> string \<Rightarrow> string option" where
  "strip_underscores prev [] = (if prev = CHR ''_'' then None else Some [])"
| "strip_underscores prev (c # cs) =
     (if c = CHR ''_'' then (if is_digit prev then strip_underscores c cs else None)
      else if prev = CHR ''_'' \<and> \<not> is_digit c then None
      else map_option ((#) c) (strip_underscores c cs))"

definition pow10 :: "int \<Rightarrow> rat" where
  "pow10 e = (if 0 \<le> e then 10 ^ nat e else 1 / 10 ^ nat (- e))"

text \<open>
  The exponent part: \<open>e\<close> or \<open>E\<close>, an optional sign, and at least one digit. Without a
  digit nothing is consumed, and the caller then finds the \<open>e\<close> left over.
\<close>

definition parse_exponent :: "string \<Rightarrow> int \<times> string" where
  "parse_exponent s =
     (case s of
        [] \<Rightarrow> (0, s)
      | c # t \<Rightarrow>
          if c = CHR ''e'' \<or> c = CHR ''E'' then
            (let (neg, u) =
                   (case t of
                      [] \<Rightarrow> (False, t)
                    | d # v \<Rightarrow>
                        if d = CHR ''-'' then (True, v)
                        else if d = CHR ''+'' then (False, v) else (False, t));
                 ds = takeWhile is_digit u
             in if ds = [] then (0, s)
                else (if neg then - int (digits_val ds) else int (digits_val ds),
                      dropWhile is_digit u))
          else (0, s))"

definition parse_decimal :: "string \<Rightarrow> rat option" where
  "parse_decimal s =
     (let ip = takeWhile is_digit s;
          r1 = dropWhile is_digit s;
          (fp, r2) =
            (case r1 of
               [] \<Rightarrow> ([], r1)
             | c # t \<Rightarrow>
                 if c = CHR ''.'' then (takeWhile is_digit t, dropWhile is_digit t)
                 else ([], r1))
      in if ip = [] \<and> fp = [] then None
         else
           let (ex, r3) = parse_exponent r2
           in if r3 \<noteq> [] then None
              else Some (of_nat (digits_val (ip @ fp)) * pow10 (ex - int (length fp))))"

definition parse_float :: "string \<Rightarrow> pyfloat option" where
  "parse_float s =
     (let (neg, r) =
            (case s of
               [] \<Rightarrow> (False, s)
             | c # t \<Rightarrow>
                 if c = CHR ''-'' then (True, t)
                 else if c = CHR ''+'' then (False, t) else (False, s));
          w = map ascii_lower_char r
      in if w = ''inf'' \<or> w = ''infinity'' then Some (if neg then NegInf else PosInf)
         else if w = ''nan'' then Some NaN
         else map_option (\<lambda>q. rnd64 (if neg then - q else q)) (parse_decimal r))"

definition float_of_str :: "string \<Rightarrow> error + pyfloat" where
  "float_of_str s =
     (case strip_underscores (CHR 0x00) (c_strip (to_ascii s)) of
        None \<Rightarrow> Inl ValueError
      | Some u \<Rightarrow> (case parse_float u of None \<Rightarrow> Inl ValueError | Some f \<Rightarrow> Inr f))"

text \<open>
  \<open>float(v)\<close>: an \<open>int\<close> is rounded to the nearest double and raises \<open>OverflowError\<close>
  when that would be an infinity.
\<close>

fun py_float :: "pyval \<Rightarrow> error + pyfloat" where
  "py_float PyNone = Inl TypeError"
| "py_float (PyInt i) =
     (case rnd64 (of_int i) of Finite x \<Rightarrow> Inr (Finite x) | _ \<Rightarrow> Inl OverflowError)"
| "py_float (PyFloat f) = Inr f"
| "py_float (PyStr s) = float_of_str s"

section \<open>budget.py: the class Budget\<close>

text \<open>
  The two dictionaries of a \<open>Budget\<close> are association lists in insertion order, read
  with \<^const>\<open>map_of\<close> and written with \<^const>\<open>AList.update\<close> (an existing key keeps its
  place, a new one goes to the end, as in a Python \<open>dict\<close>). Every method takes the
  object's state and returns what it returns or raises together with the state it
  leaves behind.

  \<open>set_limit\<close> calls \<open>print\<close> inside its \<open>try\<close>, after it has written both dictionaries.
  The standard output is outside the object, so what that call of \<open>print\<close> does is an
  argument of the model: \<open>None\<close> when it returns, \<open>Some e\<close> when it raises \<open>e\<close> (a closed
  stream raises \<open>ValueError\<close>, as does a category the stream cannot encode; a broken
  pipe raises \<open>OSError\<close>). A \<open>ValueError\<close> or \<open>TypeError\<close> it raises is caught by the
  handler and raised again as "Invalid budget limit".
\<close>

record budget =
  limits :: "(string \<times> pyfloat) list"
  spent :: "(string \<times> pyfloat) list"

definition Budget_init :: budget where
  "Budget_init = \<lparr>limits = [], spent = []\<rparr>"

definition set_limit ::
  "string \<Rightarrow> pyval \<Rightarrow> error option \<Rightarrow> budget \<Rightarrow> (error + unit) \<times> budget" where
  "set_limit category limit out b =
     (let category = lower (strip category)
      in case py_float limit of
           Inl e \<Rightarrow>
             (if e = ValueError \<or> e = TypeError then (Inl InvalidLimit, b) else (Inl e, b))
         | Inr limit \<Rightarrow>
             if fle limit (Finite 0) then (Inl InvalidLimit, b)
             else
               (let b1 = b\<lparr>limits := AList.update category (round2 limit) (limits b)\<rparr>;
                    b2 = (if map_of (spent b1) category = None
                          then b1\<lparr>spent := AList.update category (Finite 0) (spent b1)\<rparr>
                          else b1)
                in (case out of
                      None \<Rightarrow> (Inr (), b2)
                    | Some e \<Rightarrow>
                        (if e = ValueError \<or> e = TypeError then (Inl InvalidLimit, b2)
                         else (Inl e, b2)))))"

definition add_expense :: "string \<Rightarrow> pyval \<Rightarrow> budget \<Rightarrow> (error + unit) \<times> budget" where
  "add_expense category amount b =
     (let category = lower (strip category)
      in case py_float amount of
           Inl e \<Rightarrow> (Inl e, b)
         | Inr amount \<Rightarrow>
             (let b1 = (if map_of (spent b) category = None
                        then b\<lparr>spent := AList.update category (Finite 0) (spent b)\<rparr>
                        else b)
              in (case map_of (spent b1) category of
                    None \<Rightarrow> (Inl KeyError, b1)
                  | Some old \<Rightarrow>
                      (Inr (),
                       b1\<lparr>spent := AList.update category (fadd old amount) (spent b1)\<rparr>))))"

definition get_remaining :: "string \<Rightarrow> budget \<Rightarrow> (error + pyfloat option) \<times> budget" where
  "get_remaining category b =
     (let category = lower (strip category)
      in case map_of (limits b) category of
           None \<Rightarrow> (Inr None, b)
         | Some l \<Rightarrow>
             let s = (case map_of (spent b) category of None \<Rightarrow> Finite 0 | Some v \<Rightarrow> v)
             in (Inr (Some (fsub l s)), b))"

definition is_over_budget :: "string \<Rightarrow> budget \<Rightarrow> (error + bool) \<times> budget" where
  "is_over_budget category b =
     (case get_remaining category b of
        (Inl e, b') \<Rightarrow> (Inl e, b')
      | (Inr None, b') \<Rightarrow> (Inr False, b')
      | (Inr (Some remaining), b') \<Rightarrow> (Inr (flt remaining (Finite 0)), b'))"

text \<open>
  The status dictionary, one field for each key. \<open>percentage\<close> is the float
  \<open>(spent / limit) * 100\<close> or the int \<open>0\<close>.
\<close>

record status =
  st_category :: string
  st_limit :: pyfloat
  st_spent :: pyfloat
  st_remaining :: pyfloat
  st_percentage :: pyval
  st_over_budget :: bool

definition get_status :: "string \<Rightarrow> budget \<Rightarrow> (error + status option) \<times> budget" where
  "get_status category b =
     (let category = lower (strip category)
      in case map_of (limits b) category of
           None \<Rightarrow> (Inr None, b)
         | Some l \<Rightarrow>
             (let s = (case map_of (spent b) category of None \<Rightarrow> Finite 0 | Some v \<Rightarrow> v);
                  remaining = fsub l s
              in case (if flt (Finite 0) l
                       then map_sum id (\<lambda>q. PyFloat (fmul q (Finite 100))) (fdiv s l)
                       else Inr (PyInt 0)) of
                   Inl e \<Rightarrow> (Inl e, b)
                 | Inr percentage \<Rightarrow>
                     (Inr (Some \<lparr>st_category = category, st_limit = l, st_spent = s,
                                  st_remaining = remaining, st_percentage = percentage,
                                  st_over_budget = flt remaining (Finite 0)\<rparr>), b)))"

definition get_all_categories :: "budget \<Rightarrow> (error + string set) \<times> budget" where
  "get_all_categories b = (Inr (set (map fst (limits b)) \<union> set (map fst (spent b))), b)"

text \<open>The loop of \<open>get_budget_report\<close> over the sorted keys, with the report so far.\<close>

fun report_loop :: "string list \<Rightarrow> status list \<Rightarrow> budget \<Rightarrow> (error + status list) \<times> budget" where
  "report_loop [] report b = (Inr report, b)"
| "report_loop (category # cs) report b =
     (case get_status category b of
        (Inl e, b') \<Rightarrow> (Inl e, b')
      | (Inr None, b') \<Rightarrow> report_loop cs report b'
      | (Inr (Some st), b') \<Rightarrow> report_loop cs (report @ [st]) b')"

definition get_budget_report :: "budget \<Rightarrow> (error + status list) \<times> budget" where
  "get_budget_report b = report_loop (sort (map fst (limits b))) [] b"

definition to_dict ::
  "budget \<Rightarrow> (error + (string \<times> pyfloat) list \<times> (string \<times> pyfloat) list) \<times> budget" where
  "to_dict b = (Inr (limits b, spent b), b)"

text \<open>
  \<open>from_dict\<close>: the snapshot may lack either key, and then the dictionary is empty;
  nothing is validated.
\<close>

definition from_dict ::
  "(string \<times> pyfloat) list option \<times> (string \<times> pyfloat) list option \<Rightarrow> budget
     \<Rightarrow> (error + unit) \<times> budget" where
  "from_dict data b =
     (Inr (), b\<lparr>limits := (case fst data of None \<Rightarrow> [] | Some l \<Rightarrow> l),
                spent := (case snd data of None \<Rightarrow> [] | Some s \<Rightarrow> s)\<rparr>)"

text \<open>
  A sequence of calls of the two mutators, each \<open>set_limit\<close> with what its \<open>print\<close> does;
  it stops at the first exception.
\<close>

datatype call = SetLimit string pyval "error option" | AddExpense string pyval

fun run_call :: "call \<Rightarrow> budget \<Rightarrow> (error + unit) \<times> budget" where
  "run_call (SetLimit category limit out) b = set_limit category limit out b"
| "run_call (AddExpense category amount) b = add_expense category amount b"

fun run_calls :: "call list \<Rightarrow> budget \<Rightarrow> (error + unit) \<times> budget" where
  "run_calls [] b = (Inr (), b)"
| "run_calls (c # cs) b =
     (case run_call c b of (Inl e, b') \<Rightarrow> (Inl e, b') | (Inr u, b') \<Rightarrow> run_calls cs b')"

section \<open>transaction.py: the class Transaction\<close>

text \<open>
  A date is read digit by digit, and the digits that \<open>\d\<close> of a Python pattern and
  \<open>int()\<close> accept are the decimal digits of every script, not only \<open>0\<close> to \<open>9\<close>. A date
  string is therefore the list of its code points, over the whole of Unicode; \<open>codes\<close>
  gives the code points of a literal. In these lists 48 to 57 are the digits \<open>0\<close> to
  \<open>9\<close>, 45 is the hyphen, 32 the blank and 10 the newline.

  \<open>decimal_zeros\<close> lists the code point of the digit zero of every script that has
  decimal digits (Unicode 14.0, the table of Python 3.11); the nine code points after a
  zero are the digits one to nine of that script.
\<close>

type_synonym ustr = "nat list"

definition codes :: "string \<Rightarrow> ustr" where
  "codes s = map of_char s"

definition decimal_zeros :: "nat list" where
  "decimal_zeros =
      [48, 1632, 1776, 1984, 2406, 2534, 2662, 2790, 2918, 3046, 3174, 3302, 3430,
       3558, 3664, 3792, 3872, 4160, 4240, 6112, 6160, 6470, 6608, 6784, 6800, 6992,
       7088, 7232, 7248, 42528, 43216, 43264, 43472, 43504, 43600, 44016, 65296,
       66720, 68912, 69734, 69872, 69942, 70096, 70384, 70736, 70864, 71248, 71360,
       71472, 71904, 72016, 72784, 73040, 73120, 92768, 92864, 93008, 120782, 120792,
       120802, 120812, 120822, 123200, 123632, 125264, 130032]"

definition is_decimal :: "nat \<Rightarrow> bool" where
  "is_decimal c = list_ex (\<lambda>z. z \<le> c \<and> c < z + 10) decimal_zeros"

definition decimal_val :: "nat \<Rightarrow> nat" where
  "decimal_val c =
     (case find (\<lambda>z. z \<le> c \<and> c < z + 10) decimal_zeros of None \<Rightarrow> 0 | Some z \<Rightarrow> c - z)"

text \<open>The value of a string of decimal digits, as \<open>int()\<close> reads it.\<close>

definition int_of_digits :: "ustr \<Rightarrow> nat" where
  "int_of_digits ds = foldl (\<lambda>acc c. 10 * acc + decimal_val c) 0 ds"

text \<open>
  \<open>re.match\<close> of the pattern \<open>^\d{4}-(0[1-9]|1[0-2])-(0[1-9]|[12]\d|3[01])$\<close>: four
  decimal digits, a month 01 to 12 and a day 01 to 31, separated by hyphens. The classes
  \<open>[1-9]\<close>, \<open>[0-2]\<close> and \<open>[01]\<close> hold the digits \<open>0\<close> to \<open>9\<close> only; the \<open>\d\<close> of the year
  and of the days 10 to 29 is any decimal digit. The \<open>$\<close> of a Python pattern also
  matches just before a newline that ends the string.
\<close>

definition month_ok :: "nat \<Rightarrow> nat \<Rightarrow> bool" where
  "month_ok m1 m2 =
     ((m1 = 48 \<and> 49 \<le> m2 \<and> m2 \<le> 57) \<or> (m1 = 49 \<and> 48 \<le> m2 \<and> m2 \<le> 50))"

definition day_ok :: "nat \<Rightarrow> nat \<Rightarrow> bool" where
  "day_ok d1 d2 =
     ((d1 = 48 \<and> 49 \<le> d2 \<and> d2 \<le> 57)
      \<or> ((d1 = 49 \<or> d1 = 50) \<and> is_decimal d2)
      \<or> (d1 = 51 \<and> (d2 = 48 \<or> d2 = 49)))"

fun match_pattern :: "ustr \<Rightarrow> bool" where
  "match_pattern (y1 # y2 # y3 # y4 # h1 # m1 # m2 # h2 # d1 # d2 # rest) =
     (is_decimal y1 \<and> is_decimal y2 \<and> is_decimal y3 \<and> is_decimal y4 \<and> h1 = 45
      \<and> month_ok m1 m2 \<and> h2 = 45 \<and> day_ok d1 d2
      \<and> (rest = [] \<or> rest = [10]))"
| "match_pattern _ = False"

text \<open>
  \<open>datetime.strptime(date, '%Y-%m-%d')\<close>. The format is a year \<open>\d\d\d\d\<close>, a month
  (\<open>1[0-2]|0[1-9]|[1-9]\<close>) and a day (\<open>3[0-1]|[1-2]\d|0[1-9]|[1-9]| [1-9]\<close>) separated by
  hyphens, and it must use up the string. The three numbers, read by \<open>int()\<close>, must then
  be a date of the \<open>datetime\<close> module: a year from 1 on and a day the month has.
\<close>

definition month_of :: "ustr \<Rightarrow> nat option" where
  "month_of m =
     (case m of
        [a] \<Rightarrow> if 49 \<le> a \<and> a \<le> 57 then Some (int_of_digits m) else None
      | [a, b] \<Rightarrow> if month_ok a b then Some (int_of_digits m) else None
      | _ \<Rightarrow> None)"

definition day_of :: "ustr \<Rightarrow> nat option" where
  "day_of d =
     (case d of
        [a] \<Rightarrow> if 49 \<le> a \<and> a \<le> 57 then Some (int_of_digits d) else None
      | [a, b] \<Rightarrow>
          if day_ok a b then Some (int_of_digits d)
          else if a = 32 \<and> 49 \<le> b \<and> b \<le> 57 then Some (int_of_digits [b])
          else None
      | _ \<Rightarrow> None)"

definition is_leap :: "nat \<Rightarrow> bool" where
  "is_leap year = (year mod 4 = 0 \<and> (year mod 100 \<noteq> 0 \<or> year mod 400 = 0))"

definition days_in_month :: "nat \<Rightarrow> nat \<Rightarrow> nat" where
  "days_in_month year month =
     (if month = 2 \<and> is_leap year then 29
      else [31, 28, 31, 30, 31, 30, 31, 31, 30, 31, 30, 31] ! (month - 1))"

definition strptime :: "ustr \<Rightarrow> error + nat \<times> nat \<times> nat" where
  "strptime s =
     (case s of
        y1 # y2 # y3 # y4 # h # r \<Rightarrow>
          if is_decimal y1 \<and> is_decimal y2 \<and> is_decimal y3 \<and> is_decimal y4 \<and> h = 45 then
            (case dropWhile (\<lambda>c. c \<noteq> 45) r of
               [] \<Rightarrow> Inl ValueError
             | _ # d \<Rightarrow>
                 (case (month_of (takeWhile (\<lambda>c. c \<noteq> 45) r), day_of d) of
                    (Some month, Some day) \<Rightarrow>
                      (let year = int_of_digits [y1, y2, y3, y4]
                       in if 1 \<le> year \<and> day \<le> days_in_month year month
                          then Inr (year, month, day) else Inl ValueError)
                  | _ \<Rightarrow> Inl ValueError))
          else Inl ValueError
      | _ \<Rightarrow> Inl ValueError)"

definition validate_date :: "ustr \<Rightarrow> error + ustr" where
  "validate_date date =
     (if \<not> match_pattern date then Inl InvalidDateFormat
      else case strptime date of
             Inl e \<Rightarrow> (if e = ValueError then Inl InvalidDateValue else Inl e)
           | Inr _ \<Rightarrow> Inr date)"

definition validate_amount :: "pyval \<Rightarrow> error + pyfloat" where
  "validate_amount amount =
     (case py_float amount of
        Inl e \<Rightarrow> (if e = ValueError \<or> e = TypeError then Inl InvalidAmount else Inl e)
      | Inr amount \<Rightarrow>
          if fle amount (Finite 0) then Inl InvalidAmount else Inr (round2 amount))"

text \<open>
  The object \<open>__init__\<close> builds, one field \<open>t_x\<close> for each attribute \<open>x\<close>. \<open>t_kind\<close> is the
  class of the object, which \<open>to_dict\<close> reports as \<open>type\<close>; \<open>transaction_id\<close> is \<open>None\<close>
  after construction.
\<close>

datatype kind = Transaction | Income | Expense

record transaction =
  t_kind :: kind
  t_date :: ustr
  t_amount :: pyfloat
  t_category :: string
  t_description :: string
  t_transaction_id :: "nat option"

definition Transaction_init ::
  "kind \<Rightarrow> ustr \<Rightarrow> pyval \<Rightarrow> string \<Rightarrow> string \<Rightarrow> error + transaction" where
  "Transaction_init cls date amount category description =
     (case validate_date date of
        Inl e \<Rightarrow> Inl e
      | Inr d \<Rightarrow>
          (case validate_amount amount of
             Inl e \<Rightarrow> Inl e
           | Inr a \<Rightarrow>
               Inr \<lparr>t_kind = cls, t_date = d, t_amount = a,
                    t_category = lower (strip category),
                    t_description = strip description, t_transaction_id = None\<rparr>))"


definition Expense_init :: "ustr \<Rightarrow> pyval \<Rightarrow> string \<Rightarrow> string \<Rightarrow> error + transaction" where
  "Expense_init date amount category description =
     Transaction_init Expense date amount category description"

section \<open>The specification's calendar date\<close>

text \<open>
  The specification's "real \<open>YYYY-MM-DD\<close> calendar date", in its own words and apart from
  the code: a year of four digits, a month 01 to 12 and a day 01 to 31, separated by
  hyphens, that is a genuine date of the calendar, so the day exists in that month of
  that year. The digits are \<open>0\<close> to \<open>9\<close>, and the calendar has no year 0.
\<close>

definition spec_digit :: "nat \<Rightarrow> bool" where
  "spec_digit c = (48 \<le> c \<and> c \<le> 57)"

definition spec_number :: "ustr \<Rightarrow> nat" where
  "spec_number ds = foldl (\<lambda>acc c. 10 * acc + (c - 48)) 0 ds"

definition spec_leap_year :: "nat \<Rightarrow> bool" where
  "spec_leap_year y = (400 dvd y \<or> (4 dvd y \<and> \<not> 100 dvd y))"

definition spec_month_length :: "nat \<Rightarrow> nat \<Rightarrow> nat" where
  "spec_month_length y m =
     (if m = 2 then (if spec_leap_year y then 29 else 28)
      else if m = 4 \<or> m = 6 \<or> m = 9 \<or> m = 11 then 30 else 31)"

definition spec_calendar_date :: "ustr \<Rightarrow> bool" where
  "spec_calendar_date s =
     (length s = 10 \<and> s ! 4 = 45 \<and> s ! 7 = 45
      \<and> list_all spec_digit (take 4 s) \<and> list_all spec_digit (take 2 (drop 5 s))
      \<and> list_all spec_digit (drop 8 s)
      \<and> (let y = spec_number (take 4 s);
              m = spec_number (take 2 (drop 5 s));
              d = spec_number (drop 8 s)
          in 1 \<le> y \<and> 1 \<le> m \<and> m \<le> 12 \<and> 1 \<le> d \<and> d \<le> spec_month_length y m))"

section \<open>Facts about the float model\<close>

text \<open>
  \<open>pow2\<close> is the power of two with an integer exponent, \<open>ilog2\<close> finds the binade of a
  positive rational, and \<open>rnd64\<close> is exact on the integers below \<open>2^53\<close>, symmetric
  under negation, and infinite from \<open>2^1024\<close> on.
\<close>

lemma floor_rat_numeral [simp]: "\<lfloor>numeral a / numeral b :: rat\<rfloor> = numeral a div numeral b"
  using floor_divide_of_int_eq [of "numeral a" "numeral b", where ?'a = rat] by simp

lemma ceiling_rat_numeral [simp]:
  "\<lceil>numeral a / numeral b :: rat\<rceil> = - (- numeral a div numeral b)"
  using floor_divide_of_int_eq [of "- numeral a" "numeral b", where ?'a = rat]
  by (simp add: ceiling_def)

lemma pow2_powi: "pow2 e = 2 powi e"
  by (simp add: pow2_def power_int_def power_one_over inverse_eq_divide)

lemma pow2_pos: "0 < pow2 e"
  by (simp add: pow2_powi)

lemma pow2_add: "pow2 (a + b) = pow2 a * pow2 b"
  by (simp add: pow2_powi power_int_add)

lemma pow2_mono: "a \<le> b \<Longrightarrow> pow2 a \<le> pow2 b"
  by (simp add: pow2_powi power_int_increasing)

lemma pow2_less_cancel: "pow2 a < pow2 b \<Longrightarrow> a < b"
  using pow2_mono [of b a] by (cases "a < b") auto

lemma pow2_nat: "0 \<le> e \<Longrightarrow> pow2 e = 2 ^ nat e"
  by (simp add: pow2_def)

lemma ilog2_bounds:
  assumes "0 < a"
  shows "pow2 (ilog2 a) \<le> a" and "a < pow2 (ilog2 a + 1)"
proof -
  have "pow2 (ilog2 a) \<le> a \<and> a < pow2 (ilog2 a + 1)"
  proof (cases "1 \<le> a")
    case True
    define n where "n = \<lfloor>a\<rfloor>"
    have n: "0 < n" using True by (simp add: n_def)
    have e: "ilog2 a = bitlen n - 1" using True by (simp add: ilog2_def n_def)
    have k: "1 \<le> bitlen n" using n by (simp add: bitlen_alt_def)
    from bitlen_bounds [OF n]
    have lo: "2 ^ nat (bitlen n - 1) \<le> n" and hi: "n + 1 \<le> 2 ^ nat (bitlen n)"
      by auto
    have "pow2 (bitlen n - 1) = of_int (2 ^ nat (bitlen n - 1))"
      using k by (simp add: pow2_nat)
    also have "\<dots> \<le> of_int n" using lo by (simp only: of_int_le_iff)
    also have "\<dots> \<le> a" by (simp add: n_def)
    finally have 1: "pow2 (ilog2 a) \<le> a" by (simp add: e)
    have "a < of_int (n + 1)" unfolding n_def by linarith
    also have "\<dots> \<le> of_int (2 ^ nat (bitlen n))" using hi by (simp only: of_int_le_iff)
    also have "\<dots> = pow2 (bitlen n)" using k by (simp add: pow2_nat)
    finally have 2: "a < pow2 (ilog2 a + 1)" by (simp add: e)
    from 1 2 show ?thesis ..
  next
    case False
    define n where "n = \<lceil>1 / a\<rceil>"
    define m where "m = n - 1"
    define k where "k = bitlen m"
    have a1: "a < 1" using False by simp
    have inv: "1 < 1 / a" using assms a1 by (simp add: field_simps)
    have m: "0 < m" using inv by (simp add: m_def n_def less_ceiling_iff)
    have e: "ilog2 a = - k" using False by (simp add: ilog2_def n_def m_def k_def)
    have k: "1 \<le> k" using m by (simp add: k_def bitlen_alt_def)
    from bitlen_bounds [OF m]
    have lo: "2 ^ nat (k - 1) \<le> m" and hi: "n \<le> 2 ^ nat k"
      by (auto simp: k_def m_def)
    have "1 / a \<le> of_int n" by (simp add: n_def)
    also have "\<dots> \<le> of_int (2 ^ nat k)" using hi by (simp only: of_int_le_iff)
    finally have "1 / a \<le> 2 ^ nat k" by simp
    then have 1: "1 / 2 ^ nat k \<le> a" using assms by (simp add: field_simps)
    have "(2::rat) ^ nat (k - 1) = of_int (2 ^ nat (k - 1))" by simp
    also have "\<dots> \<le> of_int m" using lo by (simp only: of_int_le_iff)
    also have "\<dots> < 1 / a" unfolding m_def n_def by simp linarith
    finally have "2 ^ nat (k - 1) < 1 / a" .
    then have 2: "a < 1 / 2 ^ nat (k - 1)" using assms by (simp add: field_simps)
    have p1: "pow2 (- k) = 1 / 2 ^ nat k" using k by (simp add: pow2_def)
    have p2: "pow2 (1 - k) = 1 / 2 ^ nat (k - 1)"
    proof (cases "k = 1")
      case True
      then show ?thesis by (simp add: pow2_def)
    next
      case False
      then have "\<not> 0 \<le> 1 - k" using k by simp
      moreover have "nat (- (1 - k)) = nat (k - 1)" by simp
      ultimately show ?thesis by (simp add: pow2_def)
    qed
    from 1 2 show ?thesis by (simp add: e p1 p2)
  qed
  then show "pow2 (ilog2 a) \<le> a" and "a < pow2 (ilog2 a + 1)" by simp_all
qed

lemma ilog2_unique:
  assumes "pow2 e \<le> a" and "a < pow2 (e + 1)"
  shows "ilog2 a = e"
proof -
  have a: "0 < a" using assms(1) pow2_pos [of e] by simp
  have "pow2 (ilog2 a) < pow2 (e + 1)"
    using ilog2_bounds(1) [OF a] assms(2) by simp
  then have 1: "ilog2 a < e + 1" by (rule pow2_less_cancel)
  have "pow2 e < pow2 (ilog2 a + 1)"
    using ilog2_bounds(2) [OF a] assms(1) by simp
  then have 2: "e < ilog2 a + 1" by (rule pow2_less_cancel)
  from 1 2 show ?thesis by simp
qed

lemma round_half_even_ge:
  assumes "of_int n \<le> x"
  shows "n \<le> round_half_even x"
proof -
  have "n \<le> \<lfloor>x\<rfloor>" using assms by (simp add: le_floor_iff)
  then show ?thesis by (simp add: round_half_even_def Let_def)
qed

lemma round_half_even_le: "x \<le> of_int n \<Longrightarrow> round_half_even x \<le> n"
  unfolding round_half_even_def Let_def by (auto simp: floor_le_iff)

lemma round_half_even_of_int: "round_half_even (of_int n) = n"
  by (simp add: round_half_even_def)

lemma round_half_even_nonneg: "0 \<le> x \<Longrightarrow> 0 \<le> round_half_even x"
  using round_half_even_ge [of 0 x] by simp

lemma rnd64_minus: "rnd64 (- x) = fneg (rnd64 x)"
  by (simp add: rnd64_def Let_def)

lemma pow2_diff_52: "pow2 (e - 52) * pow2 52 = pow2 e"
proof -
  have "pow2 e = pow2 ((e - 52) + 52)" by (rule arg_cong [where f = pow2]) simp
  also have "\<dots> = pow2 (e - 52) * pow2 52" by (rule pow2_add)
  finally show ?thesis by (rule sym)
qed

lemma pow2_diff_53: "pow2 (e - 52) * pow2 53 = pow2 (e + 1)"
proof -
  have "pow2 (e + 1) = pow2 ((e - 52) + 53)" by (rule arg_cong [where f = pow2]) simp
  also have "\<dots> = pow2 (e - 52) * pow2 53" by (rule pow2_add)
  finally show ?thesis by (rule sym)
qed

lemma pow2_52: "pow2 52 = of_int (2 ^ 52)"
  by (simp add: pow2_def)

lemma pow2_53: "pow2 53 = of_int (2 ^ 53)"
  by (simp add: pow2_def)

lemma rnd64_normal:
  assumes "pow2 e \<le> x" and "x < pow2 (e + 1)" and "- 1022 \<le> e" and "e \<le> 1022"
  shows "rnd64 x = Finite (of_int (round_half_even (x / pow2 (e - 52))) * pow2 (e - 52))"
proof -
  let ?u = "pow2 (e - 52)"
  let ?n = "round_half_even (x / ?u)"
  have x: "0 < x" using assms(1) pow2_pos [of e] by simp
  have u: "0 < ?u" by (rule pow2_pos)
  have il: "ilog2 x = e" using assms(1,2) by (rule ilog2_unique)
  have "x < ?u * pow2 53" using assms(2) by (simp only: pow2_diff_53)
  then have "x / ?u \<le> pow2 53" using u by (simp add: field_simps)
  then have "?n \<le> 2 ^ 53" unfolding pow2_53 by (rule round_half_even_le)
  then have "(of_int ?n :: rat) \<le> of_int (2 ^ 53)" by (simp only: of_int_le_iff)
  then have "of_int ?n \<le> pow2 53" by (simp only: pow2_53)
  then have "of_int ?n * ?u \<le> pow2 53 * ?u" using u by (simp only: mult_le_cancel_right_pos)
  also have "\<dots> = pow2 (e + 1)" using pow2_diff_53 [of e] by (simp only: mult.commute)
  also have "\<dots> \<le> pow2 1023" using assms(4) by (intro pow2_mono) simp
  also have "\<dots> < pow2 1024" by (simp add: pow2_def)
  finally have "\<not> pow2 1024 \<le> of_int ?n * ?u" by simp
  moreover have "max e (- 1022) = e" using assms(3) by simp
  ultimately show ?thesis using x by (simp add: rnd64_def Let_def il)
qed

lemma rnd64_overflow:
  assumes "pow2 1024 \<le> x"
  shows "rnd64 x = PosInf"
proof -
  define e where "e = ilog2 x"
  let ?u = "pow2 (e - 52)"
  let ?n = "round_half_even (x / ?u)"
  have x: "0 < x" using assms pow2_pos [of 1024] by simp
  have u: "0 < ?u" by (rule pow2_pos)
  have "pow2 1024 < pow2 (e + 1)"
    using ilog2_bounds(2) [OF x] assms by (simp add: e_def)
  then have e: "1024 \<le> e" using pow2_less_cancel [of 1024 "e + 1"] by simp
  have "pow2 e \<le> x" using ilog2_bounds(1) [OF x] by (simp only: e_def)
  then have "?u * pow2 52 \<le> x" by (simp only: pow2_diff_52)
  then have "pow2 52 \<le> x / ?u" using u by (simp add: field_simps)
  then have "2 ^ 52 \<le> ?n" unfolding pow2_52 by (rule round_half_even_ge)
  then have "(of_int (2 ^ 52) :: rat) \<le> of_int ?n" by (simp only: of_int_le_iff)
  then have "pow2 52 \<le> of_int ?n" by (simp only: pow2_52)
  then have "pow2 52 * ?u \<le> of_int ?n * ?u" using u by (simp only: mult_le_cancel_right_pos)
  moreover have "pow2 52 * ?u = pow2 e" using pow2_diff_52 [of e] by (simp only: mult.commute)
  moreover have "pow2 1024 \<le> pow2 e" using e by (rule pow2_mono)
  ultimately have "pow2 1024 \<le> of_int ?n * ?u" by simp
  moreover have "max e (- 1022) = e" using e by simp
  ultimately show ?thesis using x by (simp add: rnd64_def Let_def e_def)
qed

lemma rnd64_nonneg: "0 \<le> x \<Longrightarrow> fle (Finite 0) (rnd64 x)"
  by (simp add: rnd64_def Let_def round_half_even_nonneg pow2_pos less_imp_le)

lemma rnd64_of_nat_exact:
  assumes "0 < n" and "n < 2 ^ 53"
  shows "rnd64 (of_int n) = Finite (of_int n)"
proof -
  define e where "e = ilog2 (of_int n)"
  define k where "k = nat (52 - e)"
  have x: "(0::rat) < of_int n" using assms(1) by simp
  have lo: "pow2 e \<le> of_int n" and hi: "of_int n < pow2 (e + 1)"
    using ilog2_bounds [OF x] by (simp_all add: e_def)
  have "pow2 0 \<le> of_int n" using assms(1) by (simp add: pow2_def)
  then have "pow2 0 < pow2 (e + 1)" using hi by simp
  then have e0: "0 \<le> e" using pow2_less_cancel [of 0 "e + 1"] by simp
  have "(of_int n :: rat) < of_int (2 ^ 53)" using assms(2) by (simp only: of_int_less_iff)
  then have "pow2 e < pow2 53" using lo by (simp add: pow2_53)
  then have e52: "e \<le> 52" using pow2_less_cancel [of e 53] by simp
  have u: "pow2 (e - 52) = 1 / 2 ^ k"
    using e52 by (cases "e = 52") (simp_all add: pow2_def k_def)
  have "of_int n / pow2 (e - 52) = (of_int (n * 2 ^ k) :: rat)" by (simp add: u)
  then have "round_half_even (of_int n / pow2 (e - 52)) = n * 2 ^ k"
    by (simp only: round_half_even_of_int)
  then have "of_int (round_half_even (of_int n / pow2 (e - 52))) * pow2 (e - 52)
               = (of_int n :: rat)"
    by (simp add: u)
  then show ?thesis
    using rnd64_normal [OF lo hi] e0 e52 by simp
qed

lemma rnd64_of_int_exact:
  assumes "\<bar>n\<bar> < 2 ^ 53"
  shows "rnd64 (of_int n) = Finite (of_int n)"
proof -
  consider "n = 0" | "0 < n" | "n < 0" by linarith
  then show ?thesis
  proof cases
    case 1
    then show ?thesis by (simp add: rnd64_def)
  next
    case 2
    then show ?thesis using assms by (intro rnd64_of_nat_exact) simp_all
  next
    case 3
    then have "rnd64 (of_int (- n)) = Finite (of_int (- n))"
      using assms by (intro rnd64_of_nat_exact) simp_all
    then have "fneg (rnd64 (of_int n)) = Finite (- of_int n)"
      by (simp add: rnd64_minus)
    then show ?thesis by (cases "rnd64 (of_int n)") simp_all
  qed
qed

lemma rnd64_numeral [simp]:
  "numeral w < (2 ^ 53 :: int) \<Longrightarrow> rnd64 (numeral w) = Finite (numeral w)"
  using rnd64_of_int_exact [of "numeral w"] by simp

lemma rnd64_neg_numeral [simp]:
  "numeral w < (2 ^ 53 :: int) \<Longrightarrow> rnd64 (- numeral w) = Finite (- numeral w)"
  using rnd64_of_int_exact [of "- numeral w"] by simp

lemma rnd64_0 [simp]: "rnd64 0 = Finite 0"
  by (simp add: rnd64_def)


section \<open>Facts about strings\<close>

text \<open>
  Lower-casing keeps whitespace whitespace and everything else not, so \<open>strip\<close> and
  \<open>lower\<close> commute, and both are idempotent: a category \<open>category.strip().lower()\<close> is
  the specification's \<open>trim(lower(category))\<close>, it is lower-case, and it has no
  whitespace at either end.
\<close>

text \<open>The equations that evaluate \<open>strip\<close> and \<open>lower\<close> on a literal.\<close>

lemmas str_eval =
  lower_def strip_def lstrip_def rstrip_def isspace_def lower_char_def char_of_def
  bit_Suc_0_iff

lemma of_char_lower_char:
  "(of_char (lower_char c) :: nat) =
     (if (65 \<le> (of_char c :: nat) \<and> (of_char c :: nat) \<le> 90)
         \<or> (192 \<le> (of_char c :: nat) \<and> (of_char c :: nat) \<le> 222 \<and> (of_char c :: nat) \<noteq> 215)
      then of_char c + 32 else of_char c)"
  by (auto simp: lower_char_def Let_def)

lemma isspace_lower_char: "isspace (lower_char c) = isspace c"
  unfolding isspace_def Let_def of_char_lower_char by (simp split: if_splits)

lemma lower_char_unchanged:
  assumes "\<not> ((65 \<le> (of_char d :: nat) \<and> (of_char d :: nat) \<le> 90)
      \<or> (192 \<le> (of_char d :: nat) \<and> (of_char d :: nat) \<le> 222 \<and> (of_char d :: nat) \<noteq> 215))"
  shows "lower_char d = d"
  using assms unfolding lower_char_def Let_def by (simp only: if_False)

lemma lower_char_idem: "lower_char (lower_char c) = lower_char c"
proof (rule lower_char_unchanged)
  show "\<not> ((65 \<le> (of_char (lower_char c) :: nat) \<and> (of_char (lower_char c) :: nat) \<le> 90)
      \<or> (192 \<le> (of_char (lower_char c) :: nat) \<and> (of_char (lower_char c) :: nat) \<le> 222
          \<and> (of_char (lower_char c) :: nat) \<noteq> 215))"
    unfolding of_char_lower_char by (simp split: if_splits)
qed

lemma lower_idem: "lower (lower s) = lower s"
  by (simp add: lower_def lower_char_idem)

lemma dropWhile_isspace_lower: "dropWhile isspace (lower s) = lower (dropWhile isspace s)"
  by (induction s) (simp_all add: lower_def isspace_lower_char)

lemma lower_strip_commute: "lower (strip s) = strip (lower s)"
proof -
  have "rev (lower s) = lower (rev s)" for s by (simp add: lower_def rev_map)
  then show ?thesis
    by (simp add: strip_def lstrip_def rstrip_def dropWhile_isspace_lower)
qed

lemma lstrip_rstrip_lstrip: "lstrip (rstrip (lstrip s)) = rstrip (lstrip s)"
proof (cases "lstrip s")
  case Nil
  show ?thesis unfolding Nil by (simp add: rstrip_def lstrip_def)
next
  case (Cons y ys)
  then have y: "\<not> isspace y"
    unfolding lstrip_def using hd_dropWhile [of isspace s] by (metis list.sel(1) list.distinct(1))
  have "rstrip (y # ys) = rev (dropWhile isspace (rev ys) @ [y])"
    using y by (simp add: rstrip_def dropWhile_append3)
  then have "rstrip (y # ys) = y # rev (dropWhile isspace (rev ys))" by simp
  then show ?thesis using y Cons by (simp add: lstrip_def)
qed

lemma rstrip_idem: "rstrip (rstrip s) = rstrip s"
  by (simp add: rstrip_def)

lemma strip_idem: "strip (strip s) = strip s"
  by (simp add: strip_def lstrip_rstrip_lstrip rstrip_idem)

lemma category_normalised:
  "lower (lower (strip c)) = lower (strip c)" "strip (lower (strip c)) = lower (strip c)"
  by (simp_all add: lower_idem lower_strip_commute [symmetric] strip_idem)

section \<open>Budget: the queries\<close>

lemma get_remaining_state: "snd (get_remaining c b) = b"
  by (simp add: get_remaining_def Let_def split: option.splits)

lemma is_over_budget_state: "snd (is_over_budget c b) = b"
  by (simp add: is_over_budget_def get_remaining_def Let_def split: option.splits)

lemma get_status_state: "snd (get_status c b) = b"
  by (simp add: get_status_def Let_def split: option.splits sum.splits)

lemma report_loop_state: "snd (report_loop cs report b) = b"
proof (induction cs arbitrary: report)
  case Nil
  show ?case by simp
next
  case (Cons c cs)
  obtain r where r: "get_status c b = (r, b)"
    using get_status_state [of c b] by (cases "get_status c b") simp
  show ?case
    by (cases r) (simp_all add: r Cons.IH split: option.splits)
qed


text \<open>
  C10. The queries \<open>get_remaining\<close>, \<open>is_over_budget\<close>, \<open>get_status\<close>,
  \<open>get_all_categories\<close>, \<open>get_budget_report\<close> and \<open>to_dict\<close> leave the object as they
  found it: the state after the call is the state before it, for every state and every
  argument.
\<close>

theorem queries_are_reads:
  "snd (get_remaining c b) = b \<and> snd (is_over_budget c b) = b
   \<and> snd (get_status c b) = b \<and> snd (get_all_categories b) = b
   \<and> snd (get_budget_report b) = b \<and> snd (to_dict b) = b"
  by (simp add: get_remaining_state is_over_budget_state get_status_state
      report_loop_state get_all_categories_def get_budget_report_def to_dict_def)

theorem queries_are_reads_witness:
  "snd (get_status ''Food'' \<lparr>limits = [(''food'', Finite 100)], spent = []\<rparr>)
     = \<lparr>limits = [(''food'', Finite 100)], spent = []\<rparr>
   \<and> snd (get_budget_report \<lparr>limits = [(''food'', Finite 100)], spent = []\<rparr>)
     = \<lparr>limits = [(''food'', Finite 100)], spent = []\<rparr>"
  using queries_are_reads [of "''Food''" "\<lparr>limits = [(''food'', Finite 100)], spent = []\<rparr>"]
  by simp

text \<open>
  C1. With \<open>k\<close> the category trimmed and lower-cased: if \<open>limits\<close> has no entry for \<open>k\<close>,
  \<open>get_remaining\<close> returns \<open>None\<close> and \<open>is_over_budget\<close> returns \<open>False\<close>, whatever \<open>spent\<close>
  holds; if the limit of \<open>k\<close> is \<open>l\<close>, \<open>get_remaining\<close> returns \<open>l\<close> minus the amount spent
  on \<open>k\<close> (0.0 when \<open>spent\<close> has no entry), and \<open>is_over_budget\<close> returns whether that
  difference is below zero. Neither call raises.
\<close>

theorem get_remaining_is_over_budget:
  "(map_of (limits b) (lower (strip c)) = None \<longrightarrow>
      get_remaining c b = (Inr None, b) \<and> is_over_budget c b = (Inr False, b))
   \<and> (\<forall>l. map_of (limits b) (lower (strip c)) = Some l \<longrightarrow>
      get_remaining c b =
        (Inr (Some (fsub l (case map_of (spent b) (lower (strip c)) of
                              None \<Rightarrow> Finite 0 | Some v \<Rightarrow> v))), b)
      \<and> is_over_budget c b =
        (Inr (flt (fsub l (case map_of (spent b) (lower (strip c)) of
                             None \<Rightarrow> Finite 0 | Some v \<Rightarrow> v)) (Finite 0)), b))"
  by (simp add: get_remaining_def is_over_budget_def Let_def)

theorem get_remaining_is_over_budget_witness:
  "get_remaining '' Food'' \<lparr>limits = [(''food'', Finite 100)], spent = [(''food'', Finite 110)]\<rparr>
     = (Inr (Some (Finite (- 10))),
        \<lparr>limits = [(''food'', Finite 100)], spent = [(''food'', Finite 110)]\<rparr>)
   \<and> is_over_budget '' Food'' \<lparr>limits = [(''food'', Finite 100)], spent = [(''food'', Finite 110)]\<rparr>
     = (Inr True, \<lparr>limits = [(''food'', Finite 100)], spent = [(''food'', Finite 110)]\<rparr>)
   \<and> get_remaining ''Rent'' \<lparr>limits = [(''food'', Finite 100)], spent = [(''rent'', Finite 110)]\<rparr>
     = (Inr None, \<lparr>limits = [(''food'', Finite 100)], spent = [(''rent'', Finite 110)]\<rparr>)
   \<and> is_over_budget ''Rent'' \<lparr>limits = [(''food'', Finite 100)], spent = [(''rent'', Finite 110)]\<rparr>
     = (Inr False, \<lparr>limits = [(''food'', Finite 100)], spent = [(''rent'', Finite 110)]\<rparr>)"
proof -
  let ?b = "\<lparr>limits = [(''food'', Finite 100)], spent = [(''food'', Finite 110)]\<rparr>"
  let ?b' = "\<lparr>limits = [(''food'', Finite 100)], spent = [(''rent'', Finite 110)]\<rparr>"
  have food: "lower (strip '' Food'') = ''food''"
    by (simp add: str_eval)
  have rent: "lower (strip ''Rent'') = ''rent''"
    by (simp add: str_eval)
  have sub: "fsub (Finite 100) (Finite 110) = Finite (- 10)"
    by (simp add: fsub_def)
  have l: "map_of (limits ?b) (lower (strip '' Food'')) = Some (Finite 100)"
    by (simp add: food)
  have n: "map_of (limits ?b') (lower (strip ''Rent'')) = None"
    by (simp add: rent)
  show ?thesis
    using get_remaining_is_over_budget [of ?b "'' Food''"] l
      get_remaining_is_over_budget [of ?b' "''Rent''"] n
    by (simp add: food sub)
qed

lemma fdiv_pos: "flt (Finite 0) l \<Longrightarrow> \<exists>q. fdiv s l = Inr q"
  by (cases l; cases s) simp_all

text \<open>
  C2, as the code has it. \<open>get_status\<close> returns \<open>None\<close> when the trimmed, lower-cased
  category has no limit. Otherwise it returns the record of that category, its limit
  \<open>l\<close>, the amount spent \<open>s\<close> (0.0 without an entry), \<open>remaining = l - s\<close>,
  \<open>over_budget = (remaining < 0)\<close>, and as \<open>percentage\<close> the float \<open>s / l * 100\<close> when
  \<open>l > 0\<close> and the int \<open>0\<close> in every other case: a zero, negative or NaN limit. It never
  raises.
\<close>

theorem get_status_record:
  "(map_of (limits b) (lower (strip c)) = None \<longrightarrow> get_status c b = (Inr None, b))
   \<and> (\<forall>l s. map_of (limits b) (lower (strip c)) = Some l
          \<and> s = (case map_of (spent b) (lower (strip c)) of None \<Rightarrow> Finite 0 | Some v \<Rightarrow> v)
        \<longrightarrow> (\<exists>p. get_status c b =
                 (Inr (Some \<lparr>st_category = lower (strip c), st_limit = l, st_spent = s,
                              st_remaining = fsub l s, st_percentage = p,
                              st_over_budget = flt (fsub l s) (Finite 0)\<rparr>), b)
               \<and> (if flt (Finite 0) l
                   then \<exists>q. fdiv s l = Inr q \<and> p = PyFloat (fmul q (Finite 100))
                   else p = PyInt 0)))"
proof (intro conjI allI impI)
  assume "map_of (limits b) (lower (strip c)) = None"
  then show "get_status c b = (Inr None, b)"
    by (simp add: get_status_def)
next
  fix l s
  assume a: "map_of (limits b) (lower (strip c)) = Some l
    \<and> s = (case map_of (spent b) (lower (strip c)) of None \<Rightarrow> Finite 0 | Some v \<Rightarrow> v)"
  show "\<exists>p. get_status c b =
                 (Inr (Some \<lparr>st_category = lower (strip c), st_limit = l, st_spent = s,
                              st_remaining = fsub l s, st_percentage = p,
                              st_over_budget = flt (fsub l s) (Finite 0)\<rparr>), b)
               \<and> (if flt (Finite 0) l
                   then \<exists>q. fdiv s l = Inr q \<and> p = PyFloat (fmul q (Finite 100))
                   else p = PyInt 0)"
  proof (cases "flt (Finite 0) l")
    case True
    then obtain q where q: "fdiv s l = Inr q" using fdiv_pos by blast
    show ?thesis using a True q by (simp add: get_status_def Let_def)
  next
    case False
    then show ?thesis using a by (simp add: get_status_def Let_def)
  qed
qed

theorem get_status_record_witness:
  "get_status ''Food '' \<lparr>limits = [(''food'', Finite 100)], spent = [(''food'', Finite 50)]\<rparr> =
     (Inr (Some \<lparr>st_category = ''food'', st_limit = Finite 100, st_spent = Finite 50,
                  st_remaining = Finite 50, st_percentage = PyFloat (Finite 50),
                  st_over_budget = False\<rparr>),
      \<lparr>limits = [(''food'', Finite 100)], spent = [(''food'', Finite 50)]\<rparr>)
   \<and> get_status ''rent'' \<lparr>limits = [(''food'', Finite 100)], spent = [(''food'', Finite 50)]\<rparr> =
     (Inr None, \<lparr>limits = [(''food'', Finite 100)], spent = [(''food'', Finite 50)]\<rparr>)"
proof -
  let ?b = "\<lparr>limits = [(''food'', Finite 100)], spent = [(''food'', Finite 50)]\<rparr>"
  have food: "lower (strip ''Food '') = ''food''"
    by (simp add: str_eval)
  have rent: "lower (strip ''rent'') = ''rent''"
    by (simp add: str_eval)
  have half: "rnd64 (1 / 2) = Finite (1 / 2)"
    using rnd64_normal [of "- 1" "1 / 2"] by (simp add: pow2_def round_half_even_def)
  have sb: "fsub (Finite 100) (Finite 50) = Finite 50"
    by (simp add: fsub_def)
  have l: "map_of (limits ?b) (lower (strip ''Food '')) = Some (Finite 100)
      \<and> Finite 50 = (case map_of (spent ?b) (lower (strip ''Food '')) of
                       None \<Rightarrow> Finite 0 | Some v \<Rightarrow> v)"
    by (simp add: food)
  have n: "map_of (limits ?b) (lower (strip ''rent'')) = None"
    by (simp add: rent)
  from get_status_record [of ?b "''Food ''", THEN conjunct2, rule_format, OF l]
  have 1: "get_status ''Food '' ?b =
     (Inr (Some \<lparr>st_category = ''food'', st_limit = Finite 100, st_spent = Finite 50,
                  st_remaining = Finite 50, st_percentage = PyFloat (Finite 50),
                  st_over_budget = False\<rparr>), ?b)"
    by (auto simp: food half sb)
  from get_status_record [of ?b "''rent''", THEN conjunct1, rule_format, OF n]
  have 2: "get_status ''rent'' ?b = (Inr None, ?b)" .
  from 1 2 show ?thesis ..
qed

text \<open>
  C2 as stated gives \<open>spent / limit * 100\<close> for every limit other than zero. A snapshot
  with a negative limit, which \<open>from_dict\<close> accepts, has the percentage \<open>0\<close>, where
  \<open>10.0 / -5.0 * 100\<close> is \<open>-200.0\<close>.
\<close>

theorem get_status_percentage_counterexample:
  "from_dict (Some [(''x'', Finite (- 5))], Some [(''x'', Finite 10)]) Budget_init =
     (Inr (), \<lparr>limits = [(''x'', Finite (- 5))], spent = [(''x'', Finite 10)]\<rparr>)
   \<and> get_status ''x'' \<lparr>limits = [(''x'', Finite (- 5))], spent = [(''x'', Finite 10)]\<rparr> =
     (Inr (Some \<lparr>st_category = ''x'', st_limit = Finite (- 5), st_spent = Finite 10,
                  st_remaining = Finite (- 15), st_percentage = PyInt 0,
                  st_over_budget = True\<rparr>),
      \<lparr>limits = [(''x'', Finite (- 5))], spent = [(''x'', Finite 10)]\<rparr>)
   \<and> Finite (- 5) \<noteq> Finite 0
   \<and> fdiv (Finite 10) (Finite (- 5)) = Inr (Finite (- 2))
   \<and> fmul (Finite (- 2)) (Finite 100) = Finite (- 200)
   \<and> PyInt 0 \<noteq> PyFloat (Finite (- 200))"
proof -
  have x: "lower (strip ''x'') = ''x''"
    by (simp add: str_eval)
  have sb: "fsub (Finite (- 5)) (Finite 10) = Finite (- 15)"
    by (simp add: fsub_def)
  show ?thesis
    by (simp add: from_dict_def Budget_init_def get_status_def Let_def x sb)
qed

section \<open>Budget: the mutators\<close>

text \<open>
  What \<open>set_limit\<close> does with every input. A limit that \<open>float()\<close> rejects, or converts
  to a float that is \<open>\<le> 0\<close>, leaves both dictionaries as they were, and \<open>print\<close> is not
  reached. When \<open>print\<close> returns, \<open>InvalidLimit\<close> is raised exactly for the limits that
  \<open>float()\<close> rejects with a \<open>ValueError\<close> or a \<open>TypeError\<close>, or converts to a float
  \<open>\<le> 0\<close>, and whatever is raised leaves the dictionaries unchanged. When \<open>print\<close> raises
  a \<open>ValueError\<close>, a limit that passed the check raises \<open>InvalidLimit\<close> too, after both
  dictionaries were written.
\<close>

lemma py_float_errors:
  "py_float v = Inl e \<Longrightarrow> e = ValueError \<or> e = TypeError \<or> e = OverflowError"
  by (cases v) (auto simp: float_of_str_def split: option.splits pyfloat.splits)

lemma set_limit_rejected_unchanged:
  assumes "(\<exists>e. py_float l = Inl e) \<or> (\<exists>f. py_float l = Inr f \<and> fle f (Finite 0))"
  shows "snd (set_limit c l out b) = b"
  using assms by (auto simp: set_limit_def Let_def)

lemma set_limit_raises_unchanged:
  "fst (set_limit c l None b) = Inl e \<Longrightarrow> snd (set_limit c l None b) = b"
  by (auto simp: set_limit_def Let_def split: sum.splits if_splits)

lemma set_limit_InvalidLimit_iff:
  "fst (set_limit c l None b) = Inl InvalidLimit \<longleftrightarrow>
     py_float l = Inl ValueError \<or> py_float l = Inl TypeError
     \<or> (\<exists>f. py_float l = Inr f \<and> fle f (Finite 0))"
  using py_float_errors [of l]
  by (auto simp: set_limit_def Let_def split: sum.splits if_splits)

lemma set_limit_print_raises:
  assumes "py_float l = Inr f" and "\<not> fle f (Finite 0)"
  shows "set_limit c l (Some ValueError) b = (Inl InvalidLimit, snd (set_limit c l None b))"
    and "limits (snd (set_limit c l None b)) =
           AList.update (lower (strip c)) (round2 f) (limits b)"
  using assms by (simp_all add: set_limit_def Let_def)

lemma rnd64_huge: "rnd64 (of_int (10 ^ 400)) = PosInf"
proof -
  have "pow2 1024 \<le> of_int (10 ^ 400)" by (simp add: pow2_def)
  then show ?thesis by (rule rnd64_overflow)
qed


lemma py_float_huge_negative: "py_float (PyInt (- (10 ^ 400))) = Inl OverflowError"
proof -
  have "rnd64 (of_int (- (10 ^ 400))) = NegInf"
    by (simp only: of_int_minus rnd64_minus rnd64_huge fneg.simps)
  then show ?thesis by (simp only: py_float.simps pyfloat.case)
qed

text \<open>
  C3 at the limit \<open>-10**400\<close>, an int whose value is below zero. \<open>float()\<close> raises
  \<open>OverflowError\<close> for it, which the handler for \<open>(ValueError, TypeError)\<close> lets through:
  \<open>set_limit\<close> raises \<open>OverflowError\<close> and not \<open>InvalidLimit\<close>. The budget is unchanged.
\<close>

theorem set_limit_huge_negative_int:
  "set_limit ''rent'' (PyInt (- (10 ^ 400))) None Budget_init =
     (Inl OverflowError, Budget_init)"
  by (simp only: set_limit_def Let_def py_float_huge_negative) simp

text \<open>The equations that evaluate \<open>float()\<close> on a literal string.\<close>

lemmas parse_eval =
  float_of_str_def to_ascii_def c_strip_def c_isspace_def parse_float_def
  parse_decimal_def parse_exponent_def is_digit_def digits_val_def digit_val_def
  ascii_lower_char_def pow10_def Let_def

lemma float_of_str_0004:
  "float_of_str ''0.004'' = Inr (Finite (1152921504606847 / 288230376151711744))"
proof -
  have r: "rnd64 (1 / 250) = Finite (1152921504606847 / 288230376151711744)"
    using rnd64_normal [of "- 8" "1 / 250"] by (simp add: pow2_def round_half_even_def)
  show ?thesis by (simp add: parse_eval r)
qed

lemma round2_0004: "round2 (Finite (1152921504606847 / 288230376151711744)) = Finite 0"
  unfolding round2.simps round_half_even_def Let_def by simp

text \<open>
  C5 at the limit \<open>"0.004"\<close>: it converts to a float above zero, passes the check, and
  is stored rounded to two decimals, as \<open>0.0\<close>. The stored limit is not above zero.
\<close>

theorem set_limit_rounds_to_zero:
  "set_limit ''x'' (PyStr ''0.004'') None Budget_init =
     (Inr (), \<lparr>limits = [(''x'', Finite 0)], spent = [(''x'', Finite 0)]\<rparr>)
   \<and> \<not> flt (Finite 0) (Finite 0)"
proof -
  have x: "lower (strip ''x'') = ''x''"
    by (simp add: str_eval)
  show ?thesis
    by (simp add: set_limit_def Let_def x float_of_str_0004 round2_0004 Budget_init_def
        del: round2.simps)
qed

lemma in_set_update:
  "(k', v') \<in> set (AList.update k v al) \<Longrightarrow> (k', v') = (k, v) \<or> (k', v') \<in> set al"
  by (induction al) (auto split: if_splits)

lemma fadd_nonneg:
  "fle (Finite 0) a \<Longrightarrow> fle (Finite 0) b \<Longrightarrow> fle (Finite 0) (fadd a b)"
  by (cases a; cases b) (simp_all add: rnd64_nonneg)

lemma set_limit_spent_nonneg:
  assumes "set_limit c l out b = (Inr u, b')"
    and "\<forall>(k, v) \<in> set (spent b). fle (Finite 0) v"
  shows "\<forall>(k, v) \<in> set (spent b'). fle (Finite 0) v"
  using assms
  by (auto simp: set_limit_def Let_def split: sum.splits if_splits option.splits
      dest!: in_set_update)

lemma add_expense_spent_nonneg:
  assumes "add_expense c a b = (Inr u, b')"
    and "py_float a = Inr f" and "fle (Finite 0) f"
    and "\<forall>(k, v) \<in> set (spent b). fle (Finite 0) v"
  shows "\<forall>(k, v) \<in> set (spent b'). fle (Finite 0) v"
proof -
  let ?k = "lower (strip c)"
  define b1 where "b1 = (if map_of (spent b) ?k = None
                          then b\<lparr>spent := AList.update ?k (Finite 0) (spent b)\<rparr> else b)"
  have inv1: "\<forall>(k, v) \<in> set (spent b1). fle (Finite 0) v"
    using assms(4) by (auto simp: b1_def dest!: in_set_update)
  from assms(1,2) obtain old where old: "map_of (spent b1) ?k = Some old"
    and b': "b' = b1\<lparr>spent := AList.update ?k (fadd old f) (spent b1)\<rparr>"
    by (auto simp: add_expense_def Let_def b1_def split: option.splits if_splits)
  have "(?k, old) \<in> set (spent b1)" using old by (rule map_of_SomeD)
  then have "fle (Finite 0) old" using inv1 by auto
  then have "fle (Finite 0) (fadd old f)" using assms(3) by (rule fadd_nonneg)
  then show ?thesis using inv1 by (auto simp: b' dest!: in_set_update)
qed

lemma run_calls_spent_nonneg:
  assumes "run_calls cs b0 = (Inr u, b)"
    and "\<forall>c a. AddExpense c a \<in> set cs \<longrightarrow> (\<exists>f. py_float a = Inr f \<and> fle (Finite 0) f)"
    and "\<forall>(k, v) \<in> set (spent b0). fle (Finite 0) v"
  shows "\<forall>(k, v) \<in> set (spent b). fle (Finite 0) v"
  using assms
proof (induction cs arbitrary: b0)
  case Nil
  then show ?case by simp
next
  case (Cons x cs)
  from Cons.prems(1) obtain u1 b1 where step: "run_call x b0 = (Inr u1, b1)"
    and rest: "run_calls cs b1 = (Inr u, b)"
    by (auto split: prod.splits sum.splits)
  have inv1: "\<forall>(k, v) \<in> set (spent b1). fle (Finite 0) v"
  proof (cases x)
    case (SetLimit c l out)
    then show ?thesis using step Cons.prems(3) set_limit_spent_nonneg by simp
  next
    case (AddExpense c a)
    then obtain f where "py_float a = Inr f" and "fle (Finite 0) f"
      using Cons.prems(2) by auto
    then show ?thesis
      using AddExpense step Cons.prems(3) add_expense_spent_nonneg [of c a b0 u1 b1 f]
      by simp
  qed
  show ?case
    using Cons.IH [OF rest _ inv1] Cons.prems(2) by simp
qed

text \<open>
  C4, as the code has it. After any sequence of successful \<open>set_limit\<close> and
  \<open>add_expense\<close> calls on a new \<open>Budget\<close>, in which every amount given to \<open>add_expense\<close>
  converts to a float \<open>\<ge> 0\<close>, every value in \<open>spent\<close> is \<open>\<ge> 0\<close>.
\<close>

theorem spent_nonneg_if_amounts_nonneg:
  assumes "run_calls cs Budget_init = (Inr (), b)"
    and "\<forall>c a. AddExpense c a \<in> set cs \<longrightarrow> (\<exists>f. py_float a = Inr f \<and> fle (Finite 0) f)"
  shows "\<forall>(k, v) \<in> set (spent b). fle (Finite 0) v"
  using run_calls_spent_nonneg [OF assms] by (simp add: Budget_init_def)

theorem spent_nonneg_if_amounts_nonneg_witness:
  "run_calls [SetLimit ''Food'' (PyInt 100) None, AddExpense ''food'' (PyInt 60)] Budget_init =
     (Inr (), \<lparr>limits = [(''food'', Finite 100)], spent = [(''food'', Finite 60)]\<rparr>)
   \<and> py_float (PyInt 60) = Inr (Finite 60)
   \<and> fle (Finite 0) (Finite 60)
   \<and> fle (Finite 0) (snd (hd (spent \<lparr>limits = [(''food'', Finite 100)],
                                     spent = [(''food'', Finite 60)]\<rparr>)))"
proof -
  let ?cs = "[SetLimit ''Food'' (PyInt 100) None, AddExpense ''food'' (PyInt 60)]"
  let ?b = "\<lparr>limits = [(''food'', Finite 100)], spent = [(''food'', Finite 60)]\<rparr>"
  have k1: "lower (strip ''Food'') = ''food''" by (simp add: str_eval)
  have k2: "lower (strip ''food'') = ''food''" by (simp add: str_eval)
  have run: "run_calls ?cs Budget_init = (Inr (), ?b)"
    by (simp add: set_limit_def add_expense_def Let_def Budget_init_def k1 k2
        round_half_even_def)
  have amounts: "\<forall>c a. AddExpense c a \<in> set ?cs
      \<longrightarrow> (\<exists>f. py_float a = Inr f \<and> fle (Finite 0) f)"
    by simp
  from spent_nonneg_if_amounts_nonneg [OF run amounts]
  have "fle (Finite 0) (snd (hd (spent ?b)))" by simp
  then show ?thesis using run by simp
qed

text \<open>
  C4 as stated has no condition on the amounts. \<open>add_expense\<close> checks no sign, and one
  successful call with the amount \<open>-5\<close> leaves \<open>spent\<close> with a value below zero.
\<close>

theorem spent_negative_counterexample:
  "run_calls [AddExpense ''food'' (PyInt (- 5))] Budget_init =
     (Inr (), \<lparr>limits = [], spent = [(''food'', Finite (- 5))]\<rparr>)
   \<and> \<not> fle (Finite 0) (Finite (- 5))"
proof -
  have k: "lower (strip ''food'') = ''food''" by (simp add: str_eval)
  show ?thesis
    by (simp add: add_expense_def Let_def Budget_init_def k)
qed

section \<open>Transaction: dates\<close>

text \<open>
  The two checks of \<open>validate_date\<close>, the pattern and \<open>strptime\<close>, accept every calendar
  date of the specification and return it unchanged. On a string of ASCII characters
  they accept nothing else: such a string that matches the pattern but is no date (a day
  the month does not have, the year 0000, a newline at the end) raises "Invalid date",
  every other one "Invalid date format". Whatever \<open>validate_date\<close> raises is one of
  these two.
\<close>

lemma codes_literal:
  "codes [] = []" "codes (c # cs) = of_char c # codes cs"
  by (simp_all add: codes_def)

lemma is_decimal_ascii: "c < 128 \<Longrightarrow> is_decimal c \<longleftrightarrow> spec_digit c"
  by (auto simp: is_decimal_def decimal_zeros_def spec_digit_def)

lemma spec_digit_decimal: "spec_digit c \<Longrightarrow> is_decimal c"
  using is_decimal_ascii [of c] by (simp add: spec_digit_def)

lemma decimal_val_spec: "spec_digit c \<Longrightarrow> decimal_val c = c - 48"
  by (simp add: decimal_val_def decimal_zeros_def spec_digit_def)

lemma foldl_digits_spec:
  "list_all spec_digit ds \<Longrightarrow>
     foldl (\<lambda>acc c. 10 * acc + decimal_val c) a ds = foldl (\<lambda>acc c. 10 * acc + (c - 48)) a ds"
  by (induction ds arbitrary: a) (simp_all add: decimal_val_spec)

lemma int_of_digits_spec: "list_all spec_digit ds \<Longrightarrow> int_of_digits ds = spec_number ds"
  by (simp add: int_of_digits_def spec_number_def foldl_digits_spec)

lemma spec_number_2: "spec_number [a, b] = 10 * (a - 48) + (b - 48)"
  by (simp add: spec_number_def)

lemma month_ok_iff:
  assumes "spec_digit a" and "spec_digit b"
  shows "month_ok a b \<longleftrightarrow> 1 \<le> spec_number [a, b] \<and> spec_number [a, b] \<le> 12"
  using assms unfolding month_ok_def spec_number_2 spec_digit_def by arith

lemma day_ok_iff:
  assumes "spec_digit a" and "spec_digit b"
  shows "day_ok a b \<longleftrightarrow> 1 \<le> spec_number [a, b] \<and> spec_number [a, b] \<le> 31"
  using assms spec_digit_decimal [OF assms(2)]
  unfolding day_ok_def spec_number_2 spec_digit_def by arith

lemma month_ok_digits: "month_ok a b \<Longrightarrow> spec_digit a \<and> spec_digit b"
  unfolding month_ok_def spec_digit_def by arith

lemma day_ok_digits: "day_ok a b \<Longrightarrow> spec_digit a \<and> is_decimal b"
  using spec_digit_decimal [of b] unfolding day_ok_def spec_digit_def by auto

lemma is_leap_spec: "is_leap y = spec_leap_year y"
proof -
  have "400 dvd y \<Longrightarrow> 4 dvd y" using dvd_trans [of 4 400 y] by simp
  then show ?thesis
    unfolding is_leap_def spec_leap_year_def by (auto simp: mod_eq_0_iff_dvd)
qed

lemma days_in_month_spec:
  assumes "1 \<le> m" and "m \<le> 12"
  shows "days_in_month y m = spec_month_length y m"
proof -
  from assms have "m = 1 \<or> m = 2 \<or> m = 3 \<or> m = 4 \<or> m = 5 \<or> m = 6 \<or> m = 7
      \<or> m = 8 \<or> m = 9 \<or> m = 10 \<or> m = 11 \<or> m = 12"
    by arith
  then show ?thesis
    by (elim disjE) (simp_all add: days_in_month_def spec_month_length_def is_leap_spec)
qed

lemma list_of_length_10:
  assumes "length s = 10"
  obtains y1 y2 y3 y4 h1 m1 m2 h2 d1 d2
  where "s = [y1, y2, y3, y4, h1, m1, m2, h2, d1, d2]"
proof -
  from assms have "length s = Suc (Suc (Suc (Suc (Suc (Suc (Suc (Suc (Suc (Suc 0)))))))))"
    by simp
  then show ?thesis
    using that by (auto simp: length_Suc_conv)
qed

lemma strptime_ten:
  assumes "is_decimal y1" "is_decimal y2" "is_decimal y3" "is_decimal y4"
    and "month_ok m1 m2" and "day_ok d1 d2"
  shows "strptime ([y1, y2, y3, y4, 45, m1, m2, 45, d1, d2] @ rest) =
     (if rest = [] then
        (if 1 \<le> int_of_digits [y1, y2, y3, y4]
            \<and> int_of_digits [d1, d2]
                \<le> days_in_month (int_of_digits [y1, y2, y3, y4]) (int_of_digits [m1, m2])
         then Inr (int_of_digits [y1, y2, y3, y4], int_of_digits [m1, m2],
                   int_of_digits [d1, d2])
         else Inl ValueError)
      else Inl ValueError)"
proof -
  have m: "m1 \<noteq> 45" "m2 \<noteq> 45"
    using month_ok_digits [OF assms(5)] by (auto simp: spec_digit_def)
  show ?thesis
  proof (cases rest)
    case Nil
    then show ?thesis
      using assms m by (simp add: strptime_def month_of_def day_of_def Let_def)
  next
    case (Cons r rs)
    then show ?thesis
      using assms m by (simp add: strptime_def month_of_def day_of_def split: list.splits)
  qed
qed

lemma validate_date_ascii:
  assumes ascii: "list_all (\<lambda>c. c < 128) s"
  shows "validate_date s =
     (if spec_calendar_date s then Inr s
      else if match_pattern s then Inl InvalidDateValue else Inl InvalidDateFormat)"
proof (cases "match_pattern s")
  case False
  have "\<not> spec_calendar_date s"
  proof
    assume c: "spec_calendar_date s"
    then have "length s = 10" by (simp add: spec_calendar_date_def)
    then obtain y1 y2 y3 y4 h1 m1 m2 h2 d1 d2
      where s: "s = [y1, y2, y3, y4, h1, m1, m2, h2, d1, d2]"
      by (rule list_of_length_10)
    from c have dg: "spec_digit m1" "spec_digit m2" "spec_digit d1" "spec_digit d2"
      by (simp_all add: s spec_calendar_date_def)
    from c have "match_pattern s"
      unfolding s
      by (simp add: spec_calendar_date_def Let_def month_ok_iff [OF dg(1,2)]
          day_ok_iff [OF dg(3,4)] spec_month_length_def spec_digit_decimal
          split: if_splits)
    with False show False by simp
  qed
  with False show ?thesis by (simp add: validate_date_def)
next
  case True
  then obtain y1 y2 y3 y4 m1 m2 d1 d2 rest
    where s: "s = [y1, y2, y3, y4, 45, m1, m2, 45, d1, d2] @ rest"
      and y: "is_decimal y1" "is_decimal y2" "is_decimal y3" "is_decimal y4"
      and mo: "month_ok m1 m2" and da: "day_ok d1 d2"
      and rest: "rest = [] \<or> rest = [10]"
    by (auto elim!: match_pattern.elims)
  have ys: "spec_digit y1" "spec_digit y2" "spec_digit y3" "spec_digit y4"
    using y ascii by (simp_all add: s is_decimal_ascii)
  have dg: "spec_digit m1" "spec_digit m2" "spec_digit d1" "spec_digit d2"
    using month_ok_digits [OF mo] day_ok_digits [OF da] ascii
    by (simp_all add: s is_decimal_ascii)
  have mrange: "1 \<le> spec_number [m1, m2]" "spec_number [m1, m2] \<le> 12"
    using mo month_ok_iff [OF dg(1,2)] by auto
  have drange: "1 \<le> spec_number [d1, d2]"
    using da day_ok_iff [OF dg(3,4)] by auto
  have nums: "int_of_digits [y1, y2, y3, y4] = spec_number [y1, y2, y3, y4]"
    "int_of_digits [m1, m2] = spec_number [m1, m2]"
    "int_of_digits [d1, d2] = spec_number [d1, d2]"
    using ys dg by (simp_all add: int_of_digits_spec)
  show ?thesis
  proof (cases "rest = []")
    case True
    have "spec_calendar_date s \<longleftrightarrow>
        1 \<le> spec_number [y1, y2, y3, y4]
        \<and> spec_number [d1, d2]
            \<le> days_in_month (spec_number [y1, y2, y3, y4]) (spec_number [m1, m2])"
      using ys dg mrange drange
      by (simp add: s True spec_calendar_date_def Let_def days_in_month_spec)
    then show ?thesis
      using \<open>match_pattern s\<close> strptime_ten [OF y mo da, of rest]
      by (simp add: validate_date_def s True nums)
  next
    case False
    then have "\<not> spec_calendar_date s" using rest by (simp add: s spec_calendar_date_def)
    then show ?thesis
      using \<open>match_pattern s\<close> strptime_ten [OF y mo da, of rest] False
      by (simp add: validate_date_def s)
  qed
qed

lemma spec_calendar_date_ascii:
  assumes "spec_calendar_date s"
  shows "list_all (\<lambda>c. c < 128) s"
proof -
  from assms have "length s = 10" by (simp add: spec_calendar_date_def)
  then obtain y1 y2 y3 y4 h1 m1 m2 h2 d1 d2
    where s: "s = [y1, y2, y3, y4, h1, m1, m2, h2, d1, d2]"
    by (rule list_of_length_10)
  from assms show ?thesis
    by (simp add: s spec_calendar_date_def spec_digit_def)
qed

lemma validate_date_spec: "spec_calendar_date s \<Longrightarrow> validate_date s = Inr s"
  using validate_date_ascii [OF spec_calendar_date_ascii] by simp

lemma validate_date_errors: "validate_date s = Inl e \<Longrightarrow> is_InvalidDate e"
  by (auto simp: validate_date_def is_InvalidDate_def strptime_def Let_def
      split: if_splits sum.splits list.splits option.splits prod.splits)

lemma validate_date_returns_input: "validate_date s = Inr s' \<Longrightarrow> s' = s"
  by (auto simp: validate_date_def split: if_splits sum.splits)

text \<open>The equations that evaluate the date checks on a literal.\<close>

lemmas date_eval =
  codes_literal spec_calendar_date_def spec_month_length_def spec_leap_year_def spec_number_def
  spec_digit_def

section \<open>Transaction: construction\<close>


lemma validate_amount_InvalidAmount_iff:
  "validate_amount a = Inl InvalidAmount \<longleftrightarrow>
     py_float a = Inl ValueError \<or> py_float a = Inl TypeError
     \<or> (\<exists>f. py_float a = Inr f \<and> fle f (Finite 0))"
  using py_float_errors [of a]
  by (auto simp: validate_amount_def split: sum.splits if_splits)

lemma validate_amount_result:
  assumes "validate_amount a = Inr v"
  shows "\<exists>f. py_float a = Inr f \<and> \<not> fle f (Finite 0) \<and> v = round2 f"
  using assms by (auto simp: validate_amount_def split: sum.splits if_splits)

lemma round2_nonneg_or_nan:
  assumes "\<not> fle f (Finite 0)"
  shows "round2 f = NaN \<or> fle (Finite 0) (round2 f)"
proof (cases f)
  case (Finite x)
  then have "0 < x" using assms by simp
  then have "0 \<le> round_half_even (x * 100)" by (intro round_half_even_nonneg) simp
  then have "(0::rat) \<le> of_int (round_half_even (x * 100)) / 100" by simp
  then show ?thesis using Finite by (simp add: rnd64_nonneg)
qed (use assms in simp_all)

lemma valid_example_date:
  "spec_calendar_date (codes ''2024-11-01'')"
  "validate_date (codes ''2024-11-01'') = Inr (codes ''2024-11-01'')"
proof -
  show "spec_calendar_date (codes ''2024-11-01'')"
    by (simp add: date_eval)
  then show "validate_date (codes ''2024-11-01'') = Inr (codes ''2024-11-01'')"
    by (rule validate_date_spec)
qed

text \<open>
  The full-width digits U+FF10 to U+FF19 are the code points 65296 to 65305. They are
  decimal digits, so the pattern and \<open>strptime\<close> accept a year written with them.
\<close>

lemma fullwidth_digits:
  "is_decimal 65296" "is_decimal 65298" "is_decimal 65300"
  "decimal_val 65296 = 0" "decimal_val 65298 = 2" "decimal_val 65300 = 4"
  by (simp_all add: is_decimal_def decimal_val_def decimal_zeros_def)

lemma ascii_digits:
  "is_decimal 48" "is_decimal 49" "decimal_val 48 = 0" "decimal_val 49 = 1"
  by (simp_all add: is_decimal_def decimal_val_def decimal_zeros_def)

lemma validate_date_fullwidth:
  "validate_date [65298, 65296, 65298, 65300, 45, 49, 49, 45, 48, 49] =
     Inr [65298, 65296, 65298, 65300, 45, 49, 49, 45, 48, 49]"
  by (simp add: validate_date_def strptime_def month_ok_def day_ok_def month_of_def
      day_of_def int_of_digits_def fullwidth_digits ascii_digits days_in_month_def
      is_leap_def)

text \<open>
  A month written with the full-width digit one, U+FF11, is not matched by \<open>1[0-2]\<close>:
  the pattern takes the digits of every script in the year and refuses them in the
  month.
\<close>

lemma validate_date_fullwidth_month:
  "validate_date [50, 48, 50, 52, 45, 49, 65297, 45, 48, 49] = Inl InvalidDateFormat"
  by (simp add: validate_date_def month_ok_def)

text \<open>
  C8 at a date whose year 2024 is written with the full-width digits U+FF12, U+FF10,
  U+FF12, U+FF14, followed by \<open>-11-01\<close>. The string is not a \<open>YYYY-MM-DD\<close> calendar
  date, and the construction does not fail with \<open>InvalidDate\<close>: the digit class of the
  pattern, compiled without \<open>re.ASCII\<close>, and \<open>%Y\<close> of \<open>strptime\<close> accept every Unicode
  decimal digit. The transaction is constructed and stores the string as its date.
\<close>

theorem Transaction_init_fullwidth_year:
  "Transaction_init Expense [65298, 65296, 65298, 65300, 45, 49, 49, 45, 48, 49]
       (PyInt 100) ''Food'' ''Test'' =
     Inr \<lparr>t_kind = Expense, t_date = [65298, 65296, 65298, 65300, 45, 49, 49, 45, 48, 49],
          t_amount = Finite 100, t_category = ''food'', t_description = ''Test'',
          t_transaction_id = None\<rparr>
   \<and> \<not> spec_calendar_date [65298, 65296, 65298, 65300, 45, 49, 49, 45, 48, 49]"
proof -
  have c: "lower (strip ''Food'') = ''food''"
    by (simp add: str_eval)
  have s: "strip ''Test'' = ''Test''"
    by (simp add: str_eval)
  have n: "\<not> spec_calendar_date [65298, 65296, 65298, 65300, 45, 49, 49, 45, 48, 49]"
    by (simp add: date_eval)
  show ?thesis
    by (simp add: Transaction_init_def validate_date_fullwidth validate_amount_def c s n
        round_half_even_def)
qed

text \<open>
  What the code does guarantee about dates, for the strings of every length and of
  every code point. A calendar date is accepted and returned unchanged. A string that
  is rejected is rejected by the construction of every class with one of the two
  \<open>InvalidDate\<close> errors, whatever the amount, category and description are. A string of
  ASCII characters that is not a calendar date is rejected.
\<close>

lemma Transaction_init_date_rejected:
  assumes "validate_date s = Inl e"
  shows "Transaction_init cls s a c d = Inl e \<and> is_InvalidDate e"
  using assms validate_date_errors [OF assms] by (simp add: Transaction_init_def)

lemma validate_date_ascii_rejected:
  assumes "list_all (\<lambda>c. c < 128) s" and "\<not> spec_calendar_date s"
  shows "\<exists>e. validate_date s = Inl e \<and> is_InvalidDate e
           \<and> Transaction_init cls s a c d = Inl e"
  using assms by (simp add: validate_date_ascii Transaction_init_def is_InvalidDate_def)

lemma validate_date_examples:
  "validate_date (codes ''2024-02-29'') = Inr (codes ''2024-02-29'')"
  "validate_date (codes ''2024-02-30'') = Inl InvalidDateValue"
  "validate_date (codes ''2024-13-01'') = Inl InvalidDateFormat"
  "validate_date (codes ''11/01/2024'') = Inl InvalidDateFormat"
  "validate_date (codes ''0000-01-01'') = Inl InvalidDateValue"
  by (simp_all add: validate_date_ascii date_eval month_ok_def day_ok_def is_decimal_def
      decimal_zeros_def)




text \<open>
  C7 at the amount \<open>-10**400\<close>, an int whose value is below zero, with a valid date.
  \<open>float()\<close> raises \<open>OverflowError\<close> for it, which the handler in \<open>validate_amount\<close> for
  \<open>(ValueError, TypeError)\<close> lets through: the construction fails with \<open>OverflowError\<close>
  and not with \<open>InvalidAmount\<close>.
\<close>

theorem Transaction_init_huge_negative_int:
  "Transaction_init Expense (codes ''2024-11-01'') (PyInt (- (10 ^ 400))) ''Food'' ''Test'' =
     Inl OverflowError"
  by (simp only: Transaction_init_def valid_example_date validate_amount_def
      py_float_huge_negative) simp

text \<open>
  What holds of every transaction that was constructed: its date is the string given,
  which passes \<open>validate_date\<close> and, when all its characters are ASCII, is a calendar
  date; its category is lower-case and trimmed, its description is trimmed, and its
  amount is NaN or \<open>\<ge> 0\<close>. It need not be above zero.
\<close>

lemma Transaction_init_stored:
  assumes "Transaction_init cls d a c ds = Inr t"
  shows "t_date t = d \<and> validate_date d = Inr d"
    and "list_all (\<lambda>c. c < 128) d \<Longrightarrow> spec_calendar_date (t_date t)"
    and "lower (t_category t) = t_category t"
    and "strip (t_category t) = t_category t"
    and "strip (t_description t) = t_description t"
    and "t_amount t = NaN \<or> fle (Finite 0) (t_amount t)"
proof -
  from assms obtain d' v where d': "validate_date d = Inr d'"
    and v: "validate_amount a = Inr v"
    and t: "t = \<lparr>t_kind = cls, t_date = d', t_amount = v, t_category = lower (strip c),
                 t_description = strip ds, t_transaction_id = None\<rparr>"
    by (auto simp: Transaction_init_def split: sum.splits)
  have dd: "d' = d" using d' by (rule validate_date_returns_input)
  show 1: "t_date t = d \<and> validate_date d = Inr d"
    using d' by (simp add: t dd)
  show "spec_calendar_date (t_date t)" if "list_all (\<lambda>c. c < 128) d"
    using 1 validate_date_ascii [OF that] by (simp split: if_splits)
  show "lower (t_category t) = t_category t" and "strip (t_category t) = t_category t"
    by (simp_all add: t category_normalised)
  show "strip (t_description t) = t_description t"
    by (simp add: t strip_idem)
  from validate_amount_result [OF v] obtain f
    where "\<not> fle f (Finite 0)" and "v = round2 f" by blast
  then show "t_amount t = NaN \<or> fle (Finite 0) (t_amount t)"
    using round2_nonneg_or_nan [of f] by (simp add: t)
qed

text \<open>
  C6 at the amount \<open>"0.004"\<close>: it converts to a float above zero, passes the check in
  \<open>validate_amount\<close>, and is stored rounded to two decimals, as \<open>0.0\<close>. The transaction
  is constructed, and its amount is not above zero.
\<close>

theorem Transaction_init_amount_zero:
  "Expense_init (codes ''2024-11-01'') (PyStr ''0.004'') ''Food'' ''Test'' =
     Inr \<lparr>t_kind = Expense, t_date = codes ''2024-11-01'', t_amount = Finite 0,
          t_category = ''food'', t_description = ''Test'', t_transaction_id = None\<rparr>
   \<and> \<not> flt (Finite 0) (Finite 0)"
proof -
  have c: "lower (strip ''Food'') = ''food''"
    by (simp add: str_eval)
  have s: "strip ''Test'' = ''Test''"
    by (simp add: str_eval)
  show ?thesis
    by (simp add: Expense_init_def Transaction_init_def valid_example_date
        validate_amount_def float_of_str_0004 round2_0004 c s del: round2.simps)
qed

section \<open>Budget: what the stored limits satisfy\<close>

text \<open>
  After any sequence of successful calls on a new \<open>Budget\<close>, every stored limit is NaN
  or \<open>\<ge> 0\<close>: the check of \<open>set_limit\<close> excludes what is \<open>\<le> 0\<close> before the rounding, so a
  stored limit can be \<open>0.0\<close> but not below it.
\<close>

lemma set_limit_limits:
  assumes "set_limit c l out b = (Inr u, b')"
    and "\<forall>(k, v) \<in> set (limits b). v = NaN \<or> fle (Finite 0) v"
  shows "\<forall>(k, v) \<in> set (limits b'). v = NaN \<or> fle (Finite 0) v"
proof -
  from assms(1) obtain f where f: "\<not> fle f (Finite 0)"
    and b': "limits b' = AList.update (lower (strip c)) (round2 f) (limits b)"
    by (auto simp: set_limit_def Let_def split: sum.splits if_splits option.splits)
  show ?thesis
    using assms(2) round2_nonneg_or_nan [OF f] by (auto simp: b' dest!: in_set_update)
qed

lemma add_expense_limits: "limits (snd (add_expense c a b)) = limits b"
  by (simp add: add_expense_def Let_def split: sum.splits option.splits)

lemma run_calls_limits:
  assumes "run_calls cs b0 = (Inr u, b)"
    and "\<forall>(k, v) \<in> set (limits b0). v = NaN \<or> fle (Finite 0) v"
  shows "\<forall>(k, v) \<in> set (limits b). v = NaN \<or> fle (Finite 0) v"
  using assms
proof (induction cs arbitrary: b0)
  case Nil
  then show ?case by simp
next
  case (Cons x cs)
  from Cons.prems(1) obtain u1 b1 where step: "run_call x b0 = (Inr u1, b1)"
    and rest: "run_calls cs b1 = (Inr u, b)"
    by (auto split: prod.splits sum.splits)
  have "\<forall>(k, v) \<in> set (limits b1). v = NaN \<or> fle (Finite 0) v"
  proof (cases x)
    case (SetLimit c l out)
    then show ?thesis using step Cons.prems(2) set_limit_limits by simp
  next
    case (AddExpense c a)
    then have "limits b1 = limits b0"
      using step add_expense_limits [of c a b0] by simp
    then show ?thesis using Cons.prems(2) by simp
  qed
  then show ?case using Cons.IH [OF rest] by simp
qed

lemma reachable_limits_nonneg_or_nan:
  assumes "run_calls cs Budget_init = (Inr u, b)"
  shows "\<forall>(k, v) \<in> set (limits b). v = NaN \<or> fle (Finite 0) v"
  using run_calls_limits [OF assms] by (simp add: Budget_init_def)

end
